theory Spec2Isabelle
  imports Main "HOL-Library.Sublist" "HOL-Library.Multiset" "HOL-Library.Word"
begin

section \<open>Strings of the JavaScript runtime\<close>

text \<open>
  A JavaScript string is modelled as a \<^typ>\<open>string\<close>; each \<^typ>\<open>char\<close> stands for
  one code unit in the range 0..255. Storage keys and values are hex strings, far inside
  this range.
\<close>

definition startsWith :: "string \<Rightarrow> string \<Rightarrow> bool" where
  \<comment> \<open>\<^verbatim>\<open>s.startsWith(p)\<close>\<close>
  "startsWith s p = prefix p s"

definition isWhiteSpace :: "char \<Rightarrow> bool" where
  \<comment> \<open>the code units below 256 that \<^verbatim>\<open>String.prototype.trim\<close> strips: TAB, LF, VT, FF,
      CR, SP and NBSP\<close>
  "isWhiteSpace c = ((of_char c :: nat) \<in> {9, 10, 11, 12, 13, 32, 160})"

definition trim :: "string \<Rightarrow> string" where
  \<comment> \<open>\<^verbatim>\<open>s.trim()\<close>\<close>
  "trim s = rev (dropWhile isWhiteSpace (rev (dropWhile isWhiteSpace s)))"

section \<open>The documents\<close>

text \<open>
  A genesis spec as far as \<^verbatim>\<open>main\<close> touches it: \<^verbatim>\<open>name\<close>, \<^verbatim>\<open>id\<close>, \<^verbatim>\<open>protocolId\<close>
  and the object \<^verbatim>\<open>genesis.raw.top\<close>, a dictionary from storage keys to storage values.
  Every other field of the parsed JSON document is carried in \<open>other\<close>. The protocol id of
  a chain spec may be \<^verbatim>\<open>null\<close>, hence the option. The dictionary is a map: the keys are
  hex strings, none of which is a property name with a meaning of its own in JavaScript,
  and the order of the properties plays no role here.
\<close>

record 'o genesis_spec =
  spec_name :: string
  spec_id :: string
  protocolId :: "string option"
  genesis_raw_top :: "string \<rightharpoonup> string"
  other :: 'o

text \<open>
  The three local variables of \<^verbatim>\<open>main\<close> that lines 106 to 108 load and lines 110 to
  137 work on. They come from three separate calls of \<^verbatim>\<open>JSON.parse\<close>, so no two of them
  share an object.
\<close>

record 'o locals =
  storage :: "(string \<times> string) list"
  originalSpec :: "'o genesis_spec"
  forkedSpec :: "'o genesis_spec"

section \<open>The prefix registry\<close>

text \<open>
  An entry of \<^verbatim>\<open>metadata.asLatest.modules\<close>: \<^verbatim>\<open>module.name\<close> is the name of the
  module; \<^verbatim>\<open>module.storage\<close> is \<^verbatim>\<open>null\<close> for a module without storage, and otherwise
  an object whose \<^verbatim>\<open>prefix\<close> is the name under which the module's storage is hashed.
  The two names may differ: the module named Council stores under the prefix
  Instance1Collective. Lines 94 to 100 read \<^verbatim>\<open>module.storage.prefix\<close> only.
\<close>

record storage_metadata =
  storage_prefix :: string

record module_metadata =
  name_of_module :: string
  module_storage :: "storage_metadata option"

definition System_Account :: string where
  \<comment> \<open>the literal of line 44, commented \<^verbatim>\<open>System.Account\<close> there\<close>
  "System_Account = ''0x26aa394eea5630e07c48ae0c9558cef7b99d880ec681799c0cf30e8886371da9''"

definition prefixes0 :: "string list" where
  \<comment> \<open>the initial value of the array \<^verbatim>\<open>prefixes\<close> (line 44)\<close>
  "prefixes0 = [System_Account]"

definition skippedModulesPrefix :: "string list" where
  "skippedModulesPrefix =
     [''System'', ''Session'', ''Babe'', ''Grandpa'', ''GrandpaFinality'',
      ''FinalityTracker'', ''Authorship'']"

text \<open>
  Lines 94 to 100. \<open>xxhashAsHex\<close> is the function of that name of the library
  \<^verbatim>\<open>@polkadot/util-crypto\<close>, taken as a parameter. The callback of \<^verbatim>\<open>forEach\<close> maps the
  array \<^verbatim>\<open>prefixes\<close> to its new value; \<^verbatim>\<open>forEach\<close> itself is the fold.
\<close>

definition push_module ::
  "(string \<Rightarrow> nat \<Rightarrow> string) \<Rightarrow> module_metadata \<Rightarrow> string list \<Rightarrow> string list" where
  "push_module xxhashAsHex m pfxs =
     (case module_storage m of
        None \<Rightarrow> pfxs
      | Some st \<Rightarrow>
          if storage_prefix st \<notin> set skippedModulesPrefix
          then pfxs @ [xxhashAsHex (storage_prefix st) 128]
          else pfxs)"

definition populate_prefixes ::
  "(string \<Rightarrow> nat \<Rightarrow> string) \<Rightarrow> module_metadata list \<Rightarrow> string list \<Rightarrow> string list" where
  "populate_prefixes xxhashAsHex modules pfxs = fold (push_module xxhashAsHex) modules pfxs"

section \<open>The splice\<close>

definition LastRuntimeUpgrade_key :: string where
  "LastRuntimeUpgrade_key =
     ''0x26aa394eea5630e07c48ae0c9558cef7f9cce9c888469bb1a0dceaa129672ef8''"

definition code_key :: string where
  "code_key = ''0x3a636f6465''"

definition ForceEra_key :: string where
  "ForceEra_key = ''0x5f3e4907f716ac89b6347d15ececedcaf7dad0317324aecae8744b87fc95f2f3''"

definition HostConfiguration_key :: string where
  "HostConfiguration_key =
     ''0x45323df7cc47150b3930e2666b0aa313c522231880238a0c56021b8744a00743''"

definition council_key :: string where
  "council_key = ''0x11f3ba2e1cdd6d62f2ff9b5589e7ff81ba7fb8745735dc3be2a2c61a72c39e78''"

definition technical_committee_key :: string where
  "technical_committee_key =
     ''0x8985776095addd4789fccbce8ca77b23ba7fb8745735dc3be2a2c61a72c39e78''"

definition eligibility_key :: string where
  "eligibility_key = ''0x76310ee24dbd609d21d08ad7292757d0e48df801946c7a0cc54f1a4e51592741''"

definition HostConfiguration_value :: string where
  "HostConfiguration_value =
     ''0x0000a000005000000a00000000c8000000c800000a0000000a0000000100000001000000''"

definition alice_only :: string where
  "alice_only = ''0x04f24ff3a9cf04c71dbc94d0b566f7a27b94566cac''"

definition set_top :: "string \<Rightarrow> string \<Rightarrow> 'o locals \<Rightarrow> 'o locals" where
  \<comment> \<open>\<^verbatim>\<open>forkedSpec.genesis.raw.top[key] = value\<close>\<close>
  "set_top key val s =
     s\<lparr>forkedSpec := (forkedSpec s)\<lparr>genesis_raw_top := (genesis_raw_top (forkedSpec s))(key \<mapsto> val)\<rparr>\<rparr>"

definition delete_top :: "string \<Rightarrow> 'o locals \<Rightarrow> 'o locals" where
  \<comment> \<open>\<^verbatim>\<open>delete forkedSpec.genesis.raw.top[key]\<close>: removes the property when it is there,
      and does nothing, without an exception, when it is not\<close>
  "delete_top key s =
     s\<lparr>forkedSpec := (forkedSpec s)\<lparr>genesis_raw_top := (genesis_raw_top (forkedSpec s))(key := None)\<rparr>\<rparr>"

definition rename :: "'o locals \<Rightarrow> 'o locals" where
  \<comment> \<open>lines 111 to 113\<close>
  "rename s =
     s\<lparr>forkedSpec := (forkedSpec s)
        \<lparr>spec_name := spec_name (originalSpec s) @ ''-fork'',
         spec_id := spec_id (originalSpec s) @ ''-fork'',
         protocolId := protocolId (originalSpec s)\<rparr>\<rparr>"

definition moved :: "string list \<Rightarrow> (string \<times> string) list \<Rightarrow> (string \<times> string) list" where
  \<comment> \<open>line 117: \<^verbatim>\<open>storage.filter((i) => prefixes.some((prefix) => i[0].startsWith(prefix)))\<close>\<close>
  "moved pfxs sto = filter (\<lambda>i. list_ex (\<lambda>p. startsWith (fst i) p) pfxs) sto"

definition transplant :: "string list \<Rightarrow> 'o locals \<Rightarrow> 'o locals" where
  \<comment> \<open>lines 116 to 118: \<^verbatim>\<open>forEach\<close> over the filtered array, in order\<close>
  "transplant pfxs s = fold (\<lambda>(key, val). set_top key val) (moved pfxs (storage s)) s"

definition splice_spec :: "string list \<Rightarrow> string \<Rightarrow> 'o locals \<Rightarrow> 'o locals" where
  \<comment> \<open>lines 110 to 137, statement by statement; \<open>hex\<close> is the text of the file
      \<^verbatim>\<open>runtime.hex\<close> that line 124 reads\<close>
  "splice_spec pfxs hex s =
     (let s1 = rename s;
          s2 = transplant pfxs s1;
          s3 = delete_top LastRuntimeUpgrade_key s2;
          s4 = set_top code_key (''0x'' @ trim hex) s3;
          s5 = set_top ForceEra_key ''0x02'' s4;
          s6 = set_top HostConfiguration_key HostConfiguration_value s5;
          s7 = set_top council_key alice_only s6;
          s8 = set_top technical_committee_key alice_only s7;
          s9 = set_top eligibility_key ''0x64'' s8
      in s9)"

definition main_splice ::
  "(string \<Rightarrow> nat \<Rightarrow> string) \<Rightarrow> module_metadata list \<Rightarrow> string \<Rightarrow> 'o locals \<Rightarrow> 'o locals" where
  \<comment> \<open>lines 93 to 137 of \<^verbatim>\<open>main\<close>: the prefixes are populated from the metadata, starting
      from the array of line 44, and the splice runs with them\<close>
  "main_splice xxhashAsHex modules hex s =
     splice_spec (populate_prefixes xxhashAsHex modules prefixes0) hex s"

section \<open>The chunked fetch\<close>

subsection \<open>Chunk addresses\<close>

definition hexdigit :: "nat \<Rightarrow> char" where
  "hexdigit d = ''0123456789abcdef'' ! d"

fun toString16 :: "nat \<Rightarrow> string" where
  \<comment> \<open>\<^verbatim>\<open>i.toString(16)\<close> for a non-negative integer\<close>
  "toString16 n =
     (if n < 16 then [hexdigit n] else toString16 (n div 16) @ [hexdigit (n mod 16)])"

declare toString16.simps [simp del]

definition padStart :: "nat \<Rightarrow> string \<Rightarrow> string \<Rightarrow> string" where
  \<comment> \<open>\<^verbatim>\<open>s.padStart(n, pad)\<close>: the padding is \<open>pad\<close> repeated and cut to the missing length\<close>
  "padStart n pad s =
     take (n - length s) (concat (replicate (n - length s) pad)) @ s"

definition hex2 :: "nat \<Rightarrow> string" where
  \<comment> \<open>\<^verbatim>\<open>i.toString(16).padStart(2, "0")\<close>\<close>
  "hex2 i = padStart 2 ''0'' (toString16 i)"

definition storage_key :: "8 word list \<Rightarrow> string" where
  \<comment> \<open>the address space: a storage key is a byte string, written as \<^verbatim>\<open>0x\<close> and two
      lower-case hex digits for each byte\<close>
  "storage_key bs = ''0x'' @ concat (map (\<lambda>b. hex2 (unat b)) bs)"

fun chunk_addresses :: "string \<Rightarrow> nat \<Rightarrow> string list" where
  \<comment> \<open>the prefixes that lines 179 to 181 reach from a prefix after so many levels, in
      the order of the loops\<close>
  "chunk_addresses pfx 0 = [pfx]"
| "chunk_addresses pfx (Suc n) =
     concat (map (\<lambda>i. chunk_addresses (pfx @ hex2 i) n) [0..<256])"

definition totalChunks :: "nat \<Rightarrow> nat" where
  \<comment> \<open>line 25: \<^verbatim>\<open>Math.pow(256, chunksLevel)\<close>\<close>
  "totalChunks chunksLevel = 256 ^ chunksLevel"

subsection \<open>Serialising and parsing the snapshot\<close>

text \<open>
  \<^verbatim>\<open>JSON.stringify\<close> on an array of two-element arrays of strings, as the RPC method
  \<^verbatim>\<open>state_getPairs\<close> returns it: no white space, elements separated by commas, strings
  quoted as ECMAScript's QuoteJSONString does.
\<close>

definition backslash :: char where
  "backslash = CHR 0x5C"

definition dquote :: char where
  "dquote = CHR 0x22"

definition quoteJSONChar :: "char \<Rightarrow> string" where
  "quoteJSONChar c =
     (if c = CHR 0x08 then [backslash, CHR ''b'']
      else if c = CHR 0x09 then [backslash, CHR ''t'']
      else if c = CHR 0x0A then [backslash, CHR ''n'']
      else if c = CHR 0x0C then [backslash, CHR ''f'']
      else if c = CHR 0x0D then [backslash, CHR ''r'']
      else if c = dquote then [backslash, dquote]
      else if c = backslash then [backslash, backslash]
      else if (of_char c :: nat) < 32 then [backslash, CHR ''u'', CHR ''0'', CHR ''0''] @ hex2 (of_char c)
      else [c])"

definition QuoteJSONString :: "string \<Rightarrow> string" where
  "QuoteJSONString s = dquote # concat (map quoteJSONChar s) @ [dquote]"

fun join :: "string \<Rightarrow> string list \<Rightarrow> string" where
  "join sep [] = []"
| "join sep [x] = x"
| "join sep (x # y # ys) = x @ sep @ join sep (y # ys)"

definition JSON_stringify_pair :: "string \<times> string \<Rightarrow> string" where
  "JSON_stringify_pair kv =
     ''['' @ QuoteJSONString (fst kv) @ '','' @ QuoteJSONString (snd kv) @ '']''"

definition JSON_stringify :: "(string \<times> string) list \<Rightarrow> string" where
  "JSON_stringify pairs = ''['' @ join '','' (map JSON_stringify_pair pairs) @ '']''"

definition slice_string :: "string \<Rightarrow> int \<Rightarrow> int \<Rightarrow> string" where
  \<comment> \<open>\<^verbatim>\<open>s.slice(start, end)\<close>; a negative index counts from the end\<close>
  "slice_string s start end =
     (let len = int (length s);
          from = (if start < 0 then max (len + start) 0 else min start len);
          to = (if end < 0 then max (len + end) 0 else min end len)
      in take (nat (to - from)) (drop (nat from) s))"

text \<open>
  \<^verbatim>\<open>JSON.parse\<close> (line 106) on the grammar of a snapshot file: an array of two-element
  arrays of strings, without white space. It accepts only JSON texts, and fewer of them
  than \<^verbatim>\<open>JSON.parse\<close> does; an escape \<^verbatim>\<open>\u\<close> of a code unit above 255 is refused.
\<close>

definition hexval :: "char \<Rightarrow> nat option" where
  "hexval c =
     (let n = (of_char c :: nat) in
      if 48 \<le> n \<and> n \<le> 57 then Some (n - 48)
      else if 97 \<le> n \<and> n \<le> 102 then Some (n - 87)
      else if 65 \<le> n \<and> n \<le> 70 then Some (n - 55)
      else None)"

definition unescape :: "char \<Rightarrow> char option" where
  "unescape e =
     (if e = dquote then Some dquote
      else if e = backslash then Some backslash
      else if e = CHR ''/'' then Some (CHR ''/'')
      else if e = CHR ''b'' then Some (CHR 0x08)
      else if e = CHR ''f'' then Some (CHR 0x0C)
      else if e = CHR ''n'' then Some (CHR 0x0A)
      else if e = CHR ''r'' then Some (CHR 0x0D)
      else if e = CHR ''t'' then Some (CHR 0x09)
      else None)"

definition unicode_escape :: "string \<Rightarrow> char option" where
  \<comment> \<open>the four hex digits after \<^verbatim>\<open>\u\<close>\<close>
  "unicode_escape ds =
     (case map hexval ds of
        [Some a, Some b, Some c, Some d] \<Rightarrow>
          if a = 0 \<and> b = 0 then Some (char_of (16 * c + d)) else None
      | _ \<Rightarrow> None)"

definition cons_result :: "char \<Rightarrow> (string \<times> string) option \<Rightarrow> (string \<times> string) option" where
  "cons_result c r = map_option (\<lambda>(s, rest). (c # s, rest)) r"

fun parse_chars :: "string \<Rightarrow> (string \<times> string) option" where
  \<comment> \<open>the characters of a string after its opening quote; returns the string and the
      input after the closing quote\<close>
  "parse_chars [] = None"
| "parse_chars (c # cs) =
     (if c = dquote then Some ([], cs)
      else if c = backslash then
        (case cs of
           [] \<Rightarrow> None
         | e # r \<Rightarrow>
             if e = CHR ''u'' then
               (case unicode_escape (take 4 r) of
                  None \<Rightarrow> None
                | Some u \<Rightarrow> cons_result u (parse_chars (drop 4 r)))
             else
               (case unescape e of
                  None \<Rightarrow> None
                | Some u \<Rightarrow> cons_result u (parse_chars r)))
      else if (of_char c :: nat) < 32 then None
      else cons_result c (parse_chars cs))"

definition expect :: "char \<Rightarrow> string \<Rightarrow> string option" where
  "expect c s = (case s of [] \<Rightarrow> None | x # r \<Rightarrow> if x = c then Some r else None)"

definition parse_string :: "string \<Rightarrow> (string \<times> string) option" where
  "parse_string s = Option.bind (expect dquote s) parse_chars"

definition parse_pair :: "string \<Rightarrow> ((string \<times> string) \<times> string) option" where
  "parse_pair s =
     Option.bind (expect CHR ''['' s) (\<lambda>r1.
     Option.bind (parse_string r1) (\<lambda>(k, r2).
     Option.bind (expect CHR '','' r2) (\<lambda>r3.
     Option.bind (parse_string r3) (\<lambda>(v, r4).
     Option.bind (expect CHR '']'' r4) (\<lambda>r5.
     Some ((k, v), r5))))))"

fun parse_elements :: "nat \<Rightarrow> string \<Rightarrow> (string \<times> string) list option" where
  \<comment> \<open>after an element of the array: the closing bracket at the end of the text, or a
      comma and the next element. The first argument bounds the number of elements\<close>
  "parse_elements 0 s = None"
| "parse_elements (Suc n) s =
     (if s = '']'' then Some []
      else
        Option.bind (expect CHR '','' s) (\<lambda>r1.
        Option.bind (parse_pair r1) (\<lambda>(kv, r2).
        map_option ((#) kv) (parse_elements n r2))))"

definition JSON_parse :: "string \<Rightarrow> (string \<times> string) list option" where
  "JSON_parse s =
     (if s = ''[]'' then Some []
      else
        Option.bind (expect CHR ''['' s) (\<lambda>r1.
        Option.bind (parse_pair r1) (\<lambda>(kv, r2).
        map_option ((#) kv) (parse_elements (length s) r2))))"

subsection \<open>The walk\<close>

text \<open>
  The module-level variables \<^verbatim>\<open>separator\<close> and \<^verbatim>\<open>chunksFetched\<close> (lines 27 and 28),
  the text written to the stream so far, and the prefixes of the calls of
  \<^verbatim>\<open>state_getPairs\<close> sent so far, in the order of sending.
\<close>

record fetch_state =
  separator :: bool
  stream :: string
  chunksFetched :: nat
  requests :: "string list"

definition stream_write :: "string \<Rightarrow> fetch_state \<Rightarrow> fetch_state" where
  \<comment> \<open>\<^verbatim>\<open>stream.write(text)\<close>\<close>
  "stream_write text st = st\<lparr>stream := stream st @ text\<rparr>"

definition send :: "string \<Rightarrow> fetch_state \<Rightarrow> fetch_state" where
  \<comment> \<open>line 162, up to the \<^verbatim>\<open>await\<close>: the request leaves\<close>
  "send pfx st = st\<lparr>requests := requests st @ [pfx]\<rparr>"

definition receive :: "(string \<times> string) list \<Rightarrow> fetch_state \<Rightarrow> fetch_state" where
  \<comment> \<open>lines 163 to 167, after the \<^verbatim>\<open>await\<close>: these statements run without interruption\<close>
  "receive pairs st =
     (let st2 =
        (if length pairs > 0 then
           (let st1 = (if separator st then stream_write '','' st else st\<lparr>separator := True\<rparr>)
            in stream_write (slice_string (JSON_stringify pairs) 1 (- 1)) st1)
         else st)
      in st2\<lparr>chunksFetched := chunksFetched st2 + 1\<rparr>)"

text \<open>
  \<^verbatim>\<open>fetchChunks\<close>. \<open>rpc\<close> is the answer of the node to \<^verbatim>\<open>state_getPairs\<close> for a prefix,
  at the block of the run. Without quick mode each child is awaited before the next one
  starts. In quick mode, with one level left, the loop of line 174 starts the 256
  children, each of which sends its request and suspends at its \<^verbatim>\<open>await\<close>; the
  continuations then run one at a time, in the order in which the answers arrive, which
  \<open>arrival\<close> gives for the parent prefix as a list of child indices.
\<close>

function fetchChunks ::
  "bool \<Rightarrow> (string \<Rightarrow> nat list) \<Rightarrow> (string \<Rightarrow> (string \<times> string) list) \<Rightarrow>
   string \<Rightarrow> int \<Rightarrow> fetch_state \<Rightarrow> fetch_state" where
  "fetchChunks QUICK_MODE arrival rpc pfx levelsRemaining st =
     (if levelsRemaining \<le> 0 then receive (rpc pfx) (send pfx st)
      else if QUICK_MODE \<and> levelsRemaining = 1 then
        fold (\<lambda>i. receive (rpc (pfx @ hex2 i))) (arrival pfx)
          (fold (\<lambda>i. send (pfx @ hex2 i)) [0..<256] st)
      else
        fold (\<lambda>i. fetchChunks QUICK_MODE arrival rpc (pfx @ hex2 i) (levelsRemaining - 1))
          [0..<256] st)"
  by pat_completeness auto
termination
  by (relation "measure (\<lambda>(q, a, r, p, n, st). nat n)") auto

declare fetchChunks.simps [simp del]

fun answered :: "bool \<Rightarrow> (string \<Rightarrow> nat list) \<Rightarrow> string \<Rightarrow> nat \<Rightarrow> string list" where
  \<comment> \<open>the prefixes of a walk in the order in which lines 163 to 167 run for them\<close>
  "answered QUICK_MODE arrival pfx 0 = [pfx]"
| "answered QUICK_MODE arrival pfx (Suc n) =
     (if QUICK_MODE \<and> n = 0 then map (\<lambda>i. pfx @ hex2 i) (arrival pfx)
      else concat (map (\<lambda>i. answered QUICK_MODE arrival (pfx @ hex2 i) n) [0..<256]))"

definition written :: "(string \<times> string) list \<Rightarrow> fetch_state \<Rightarrow> bool" where
  \<comment> \<open>the invariant of the walk: the stream holds the opening bracket and the pairs
      received so far, joined by commas, and \<^verbatim>\<open>separator\<close> tells whether there are any\<close>
  "written acc st \<longleftrightarrow>
     stream st = ''['' @ join '','' (map JSON_stringify_pair acc) \<and>
     separator st = (acc \<noteq> [])"

definition fetch_state0 :: fetch_state where
  "fetch_state0 = \<lparr>separator = False, stream = [], chunksFetched = 0, requests = []\<rparr>"

definition main_fetch ::
  "bool \<Rightarrow> (string \<Rightarrow> nat list) \<Rightarrow> (string \<Rightarrow> (string \<times> string) list) \<Rightarrow> int \<Rightarrow> fetch_state" where
  \<comment> \<open>lines 83 to 87; the file does not exist before (line 74), so the text of the
      stream is the text of the file\<close>
  "main_fetch QUICK_MODE arrival rpc chunksLevel =
     (let st1 = stream_write ''['' fetch_state0;
          st2 = fetchChunks QUICK_MODE arrival rpc ''0x'' chunksLevel st1;
          st3 = stream_write '']'' st2
      in st3)"

section \<open>Properties of the splice\<close>

lemma fold_set_top:
  "fold (\<lambda>(key, val). set_top key val) kvs s =
     s\<lparr>forkedSpec := (forkedSpec s)\<lparr>genesis_raw_top := genesis_raw_top (forkedSpec s) ++ map_of (rev kvs)\<rparr>\<rparr>"
proof (induction kvs arbitrary: s)
  case Nil
  show ?case by simp
next
  case (Cons kv kvs)
  obtain k v where kv: "kv = (k, v)" by (cases kv)
  have *: "(genesis_raw_top (forkedSpec s))(k \<mapsto> v) ++ map_of (rev kvs) =
        genesis_raw_top (forkedSpec s) ++ (map_of (rev kvs @ [(k, v)]))"
    by (simp add: map_add_upd_left fun_eq_iff map_add_def split: option.splits)
  have "fold (\<lambda>(key, val). set_top key val) (kv # kvs) s =
        fold (\<lambda>(key, val). set_top key val) kvs (set_top k v s)"
    by (simp add: kv)
  also have "\<dots> = (set_top k v s)\<lparr>forkedSpec := (forkedSpec (set_top k v s))
      \<lparr>genesis_raw_top := genesis_raw_top (forkedSpec (set_top k v s)) ++ map_of (rev kvs)\<rparr>\<rparr>"
    by (rule Cons.IH)
  also have "\<dots> = s\<lparr>forkedSpec := (forkedSpec s)
      \<lparr>genesis_raw_top := genesis_raw_top (forkedSpec s) ++ map_of (rev (kv # kvs))\<rparr>\<rparr>"
    using * by (simp add: set_top_def kv)
  finally show ?case .
qed

lemma splice_closed:
  "splice_spec pfxs hex s =
     s\<lparr>forkedSpec := (forkedSpec s)
        \<lparr>spec_name := spec_name (originalSpec s) @ ''-fork'',
         spec_id := spec_id (originalSpec s) @ ''-fork'',
         protocolId := protocolId (originalSpec s),
         genesis_raw_top := (genesis_raw_top (forkedSpec s) ++ map_of (rev (moved pfxs (storage s))))
           (LastRuntimeUpgrade_key := None,
            code_key \<mapsto> ''0x'' @ trim hex,
            ForceEra_key \<mapsto> ''0x02'',
            HostConfiguration_key \<mapsto> HostConfiguration_value,
            council_key \<mapsto> alice_only,
            technical_committee_key \<mapsto> alice_only,
            eligibility_key \<mapsto> ''0x64'')\<rparr>\<rparr>"
  by (simp add: splice_spec_def Let_def transplant_def fold_set_top rename_def set_top_def
      delete_top_def)

lemma keys_distinct:
  "distinct [LastRuntimeUpgrade_key, code_key, ForceEra_key, HostConfiguration_key,
     council_key, technical_committee_key, eligibility_key]"
  by (simp add: LastRuntimeUpgrade_key_def code_key_def ForceEra_key_def
      HostConfiguration_key_def council_key_def technical_committee_key_def
      eligibility_key_def)

lemmas key_defs = LastRuntimeUpgrade_key_def code_key_def ForceEra_key_def
  HostConfiguration_key_def council_key_def technical_committee_key_def eligibility_key_def

lemma top_splice:
  "genesis_raw_top (forkedSpec (splice_spec pfxs hex s)) =
     (genesis_raw_top (forkedSpec s) ++ map_of (rev (moved pfxs (storage s))))
       (LastRuntimeUpgrade_key := None,
        code_key \<mapsto> ''0x'' @ trim hex,
        ForceEra_key \<mapsto> ''0x02'',
        HostConfiguration_key \<mapsto> HostConfiguration_value,
        council_key \<mapsto> alice_only,
        technical_committee_key \<mapsto> alice_only,
        eligibility_key \<mapsto> ''0x64'')"
  by (simp add: splice_closed)

lemma top_splice_at:
  "genesis_raw_top (forkedSpec (splice_spec pfxs hex s)) k =
     (if k = eligibility_key then Some ''0x64''
      else if k = technical_committee_key then Some alice_only
      else if k = council_key then Some alice_only
      else if k = HostConfiguration_key then Some HostConfiguration_value
      else if k = ForceEra_key then Some ''0x02''
      else if k = code_key then Some (''0x'' @ trim hex)
      else if k = LastRuntimeUpgrade_key then None
      else (genesis_raw_top (forkedSpec s) ++ map_of (rev (moved pfxs (storage s)))) k)"
  by (simp add: top_splice)

lemma map_of_moved_None:
  "\<not> list_ex (startsWith k) pfxs \<Longrightarrow> map_of (rev (moved pfxs sto)) k = None"
  by (auto simp: map_of_eq_None_iff moved_def)

lemma map_of_moved_Some:
  assumes "list_ex (startsWith k) pfxs"
  shows "map_of (rev (moved pfxs sto)) k = map_of (rev sto) k"
proof -
  have "map_of (filter (\<lambda>i. list_ex (startsWith (fst i)) pfxs) xs) k = map_of xs k" for xs
    using assms by (induction xs) auto
  then show ?thesis
    by (simp add: moved_def rev_filter)
qed

text \<open>
  Claim C7. The splice sets the name and the id of the forked spec to those of the
  original spec followed by \<^verbatim>\<open>-fork\<close>, and its protocol id to that of the original
  spec, whatever the template held; for the name \<^verbatim>\<open>kusama\<close> and the id \<^verbatim>\<open>ks\<close> the
  results are \<^verbatim>\<open>kusama-fork\<close> and \<^verbatim>\<open>ks-fork\<close>.
\<close>
theorem identity_rewrite:
  "spec_name (forkedSpec (splice_spec pfxs hex s)) = spec_name (originalSpec s) @ ''-fork'' \<and>
   spec_id (forkedSpec (splice_spec pfxs hex s)) = spec_id (originalSpec s) @ ''-fork'' \<and>
   protocolId (forkedSpec (splice_spec pfxs hex s)) = protocolId (originalSpec s) \<and>
   (spec_name (originalSpec s) = ''kusama'' \<and> spec_id (originalSpec s) = ''ks'' \<longrightarrow>
      spec_name (forkedSpec (splice_spec pfxs hex s)) = ''kusama-fork'' \<and>
      spec_id (forkedSpec (splice_spec pfxs hex s)) = ''ks-fork'')"
  by (simp add: splice_closed)

theorem identity_rewrite_witness:
  "let s = \<lparr>storage = [],
        originalSpec = \<lparr>spec_name = ''kusama'', spec_id = ''ks'', protocolId = Some ''ksmcc3'',
          genesis_raw_top = Map.empty, other = ''orig''\<rparr>,
        forkedSpec = \<lparr>spec_name = ''Development'', spec_id = ''dev'', protocolId = None,
          genesis_raw_top = Map.empty, other = ''tmpl''\<rparr>\<rparr>
   in spec_name (forkedSpec (splice_spec [''0x''] ''00'' s)) = ''kusama-fork'' \<and>
      spec_id (forkedSpec (splice_spec [''0x''] ''00'' s)) = ''ks-fork'' \<and>
      protocolId (forkedSpec (splice_spec [''0x''] ''00'' s)) = Some ''ksmcc3''"
  unfolding Let_def
  using identity_rewrite [of "[''0x'']" "''00''" "\<lparr>storage = [],
        originalSpec = \<lparr>spec_name = ''kusama'', spec_id = ''ks'', protocolId = Some ''ksmcc3'',
          genesis_raw_top = Map.empty, other = ''orig''\<rparr>,
        forkedSpec = \<lparr>spec_name = ''Development'', spec_id = ''dev'', protocolId = None,
          genesis_raw_top = Map.empty, other = ''tmpl''\<rparr>\<rparr>"]
  by simp

text \<open>
  Claim C3 as stated fails: the snapshot of a live chain holds the pair of the code key,
  which starts with no prefix, and line 124 writes the same runtime under that key.
\<close>
theorem unmatched_value_counterexample:
  "(code_key, ''0xabcd'') \<in> set (storage
      \<lparr>storage = [(code_key, ''0xabcd'')],
       originalSpec = \<lparr>spec_name = ''kusama'', spec_id = ''ks'', protocolId = None,
         genesis_raw_top = Map.empty, other = ()\<rparr>,
       forkedSpec = \<lparr>spec_name = ''Development'', spec_id = ''dev'', protocolId = None,
         genesis_raw_top = Map.empty, other = ()\<rparr>\<rparr>) \<and>
   \<not> list_ex (startsWith code_key) prefixes0 \<and>
   genesis_raw_top (forkedSpec (splice_spec prefixes0 ''abcd''
      \<lparr>storage = [(code_key, ''0xabcd'')],
       originalSpec = \<lparr>spec_name = ''kusama'', spec_id = ''ks'', protocolId = None,
         genesis_raw_top = Map.empty, other = ()\<rparr>,
       forkedSpec = \<lparr>spec_name = ''Development'', spec_id = ''dev'', protocolId = None,
         genesis_raw_top = Map.empty, other = ()\<rparr>\<rparr>)) code_key = Some ''0xabcd''"
proof -
  have "trim ''abcd'' = ''abcd''"
    by (simp add: trim_def isWhiteSpace_def)
  moreover have "\<not> list_ex (startsWith code_key) prefixes0"
    by (simp add: prefixes0_def startsWith_def code_key_def System_Account_def)
  ultimately show ?thesis
    using keys_distinct by (simp add: top_splice_at)
qed

text \<open>
  Claim C3, as amended. A snapshot pair whose key starts with no prefix is not
  transplanted: at its key the output holds what it would hold with an empty snapshot,
  and the key is absent from the output when it is absent from the template and is
  neither the code key nor one of the five keys set to fixed values.
\<close>
theorem unmatched_not_transplanted:
  assumes "(k, v) \<in> set (storage s)" and "\<not> list_ex (startsWith k) pfxs"
  shows "genesis_raw_top (forkedSpec (splice_spec pfxs hex s)) k =
           genesis_raw_top (forkedSpec (splice_spec pfxs hex (s\<lparr>storage := []\<rparr>))) k \<and>
         (genesis_raw_top (forkedSpec s) k = None \<and>
          k \<notin> {code_key, ForceEra_key, HostConfiguration_key, council_key,
            technical_committee_key, eligibility_key} \<longrightarrow>
          genesis_raw_top (forkedSpec (splice_spec pfxs hex s)) k = None)"
  using map_of_moved_None [OF assms(2), of "storage s"]
  by (simp add: top_splice_at map_add_def moved_def)

theorem unmatched_not_transplanted_witness:
  "let s = \<lparr>storage = [(''0xaa11'', ''0x01''), (''0xbb22'', ''0x02'')],
        originalSpec = \<lparr>spec_name = ''kusama'', spec_id = ''ks'', protocolId = Some ''ksmcc3'',
          genesis_raw_top = Map.empty, other = ''orig''\<rparr>,
        forkedSpec = \<lparr>spec_name = ''Development'', spec_id = ''dev'', protocolId = None,
          genesis_raw_top = Map.empty, other = ''tmpl''\<rparr>\<rparr>
   in (''0xbb22'', ''0x02'') \<in> set (storage s) \<and>
      \<not> list_ex (startsWith ''0xbb22'') [''0xaa''] \<and>
      genesis_raw_top (forkedSpec (splice_spec [''0xaa''] ''00'' s)) ''0xbb22'' = None \<and>
      genesis_raw_top (forkedSpec (splice_spec [''0xaa''] ''00'' s)) ''0xaa11'' = Some ''0x01''"
proof -
  let ?s = "\<lparr>storage = [(''0xaa11'', ''0x01''), (''0xbb22'', ''0x02'')],
        originalSpec = \<lparr>spec_name = ''kusama'', spec_id = ''ks'', protocolId = Some ''ksmcc3'',
          genesis_raw_top = Map.empty, other = ''orig''\<rparr>,
        forkedSpec = \<lparr>spec_name = ''Development'', spec_id = ''dev'', protocolId = None,
          genesis_raw_top = Map.empty, other = ''tmpl''\<rparr>\<rparr>"
  have a: "(''0xbb22'', ''0x02'') \<in> set (storage ?s)"
    by simp
  have b: "\<not> list_ex (startsWith ''0xbb22'') [''0xaa'']"
    by (simp add: startsWith_def)
  have c: "genesis_raw_top (forkedSpec ?s) ''0xbb22'' = None \<and>
     ''0xbb22'' \<notin> {code_key, ForceEra_key, HostConfiguration_key, council_key,
            technical_committee_key, eligibility_key}"
    by (simp add: key_defs)
  have d: "genesis_raw_top (forkedSpec (splice_spec [''0xaa''] ''00'' ?s)) ''0xaa11'' = Some ''0x01''"
    by (simp add: top_splice_at key_defs moved_def startsWith_def)
  from unmatched_not_transplanted [OF a b, of "''00''"] a b c d show ?thesis
    unfolding Let_def by blast
qed

text \<open>
  Claim C2. The overrides run after the transplant, so they win: whatever the snapshot,
  the prefixes and the template hold, also for a snapshot pair whose key matches a prefix
  and is one of the override keys, the final \<^verbatim>\<open>forkedSpec.genesis.raw.top\<close> has no entry
  for the deleted key System.LastRuntimeUpgrade and holds the fixed value at each of the
  five keys that lines 127 to 137 set.
\<close>
theorem override_precedence:
  "genesis_raw_top (forkedSpec (splice_spec pfxs hex s)) LastRuntimeUpgrade_key = None \<and>
   genesis_raw_top (forkedSpec (splice_spec pfxs hex s)) ForceEra_key = Some ''0x02'' \<and>
   genesis_raw_top (forkedSpec (splice_spec pfxs hex s)) HostConfiguration_key =
     Some HostConfiguration_value \<and>
   genesis_raw_top (forkedSpec (splice_spec pfxs hex s)) council_key = Some alice_only \<and>
   genesis_raw_top (forkedSpec (splice_spec pfxs hex s)) technical_committee_key =
     Some alice_only \<and>
   genesis_raw_top (forkedSpec (splice_spec pfxs hex s)) eligibility_key = Some ''0x64''"
  using keys_distinct by (simp add: top_splice_at)

theorem override_precedence_witness:
  "let s = \<lparr>storage = [(ForceEra_key, ''0x00''), (LastRuntimeUpgrade_key, ''0x01'')],
        originalSpec = \<lparr>spec_name = ''kusama'', spec_id = ''ks'', protocolId = Some ''ksmcc3'',
          genesis_raw_top = Map.empty, other = ''orig''\<rparr>,
        forkedSpec = \<lparr>spec_name = ''Development'', spec_id = ''dev'', protocolId = None,
          genesis_raw_top = Map.empty, other = ''tmpl''\<rparr>\<rparr>
   in genesis_raw_top (forkedSpec (splice_spec [''0x''] ''00'' s)) LastRuntimeUpgrade_key = None \<and>
      genesis_raw_top (forkedSpec (splice_spec [''0x''] ''00'' s)) ForceEra_key = Some ''0x02''"
  unfolding Let_def using override_precedence by blast

text \<open>
  Claim C6. After the splice the entry of the key \<^verbatim>\<open>0x3a636f6465\<close> is \<^verbatim>\<open>0x\<close> followed
  by the trimmed text of the hex file of the runtime, whatever the snapshot and the
  template held for that key.
\<close>
theorem code_injected:
  "genesis_raw_top (forkedSpec (splice_spec pfxs hex s)) code_key = Some (''0x'' @ trim hex)"
  using keys_distinct by (simp add: top_splice_at)

theorem code_injected_witness:
  "let s = \<lparr>storage = [(code_key, ''0xffff'')],
        originalSpec = \<lparr>spec_name = ''kusama'', spec_id = ''ks'', protocolId = Some ''ksmcc3'',
          genesis_raw_top = Map.empty, other = ''orig''\<rparr>,
        forkedSpec = \<lparr>spec_name = ''Development'', spec_id = ''dev'', protocolId = None,
          genesis_raw_top = [code_key \<mapsto> ''0x1234''], other = ''tmpl''\<rparr>\<rparr>
   in genesis_raw_top (forkedSpec (splice_spec [''0x''] ('' abcd'' @ [CHR 0x0A]) s)) code_key =
        Some ''0xabcd''"
proof -
  have "trim ('' abcd'' @ [CHR 0x0A]) = ''abcd''"
    by (simp add: trim_def isWhiteSpace_def)
  then show ?thesis
    unfolding Let_def using code_injected [of "[''0x'']" "'' abcd'' @ [CHR 0x0A]"] by simp
qed

text \<open>
  Claim C8. When the key System.LastRuntimeUpgrade is absent from
  \<^verbatim>\<open>forkedSpec.genesis.raw.top\<close>, the \<^verbatim>\<open>delete\<close> of line 121 leaves the whole state
  as it is. The model of \<^verbatim>\<open>delete\<close> has no error result, as the statement has none.
\<close>
theorem delete_absent_noop:
  "genesis_raw_top (forkedSpec s) LastRuntimeUpgrade_key = None \<Longrightarrow>
   delete_top LastRuntimeUpgrade_key s = s"
  by (simp add: delete_top_def fun_upd_idem)

theorem delete_absent_noop_witness:
  "let s = \<lparr>storage = [],
        originalSpec = \<lparr>spec_name = ''kusama'', spec_id = ''ks'', protocolId = Some ''ksmcc3'',
          genesis_raw_top = Map.empty, other = ''orig''\<rparr>,
        forkedSpec = \<lparr>spec_name = ''Development'', spec_id = ''dev'', protocolId = None,
          genesis_raw_top = [''0xaa11'' \<mapsto> ''0x01''], other = ''tmpl''\<rparr>\<rparr>
   in genesis_raw_top (forkedSpec s) LastRuntimeUpgrade_key = None \<and>
      delete_top LastRuntimeUpgrade_key s = s"
proof -
  let ?s = "\<lparr>storage = [],
        originalSpec = \<lparr>spec_name = ''kusama'', spec_id = ''ks'', protocolId = Some ''ksmcc3'',
          genesis_raw_top = Map.empty, other = ''orig''\<rparr>,
        forkedSpec = \<lparr>spec_name = ''Development'', spec_id = ''dev'', protocolId = None,
          genesis_raw_top = [''0xaa11'' \<mapsto> ''0x01''], other = ''tmpl''\<rparr>\<rparr>"
  have h: "genesis_raw_top (forkedSpec ?s) LastRuntimeUpgrade_key = None"
    by (simp add: LastRuntimeUpgrade_key_def)
  from h delete_absent_noop [OF h] show ?thesis
    unfolding Let_def by blast
qed

text \<open>
  In a run of the splice the document at the time of the \<^verbatim>\<open>delete\<close> is the template
  after the transplant; the key is absent from it when it is absent from the template
  and no transplanted pair has it.
\<close>
lemma delete_after_transplant:
  assumes "genesis_raw_top (forkedSpec s) LastRuntimeUpgrade_key = None"
    and "LastRuntimeUpgrade_key \<notin> fst ` set (moved pfxs (storage s))"
  shows "delete_top LastRuntimeUpgrade_key (transplant pfxs (rename s)) =
         transplant pfxs (rename s)"
proof -
  have "map_of (rev (moved pfxs (storage s))) LastRuntimeUpgrade_key = None"
    using assms(2) by (simp add: map_of_eq_None_iff)
  with assms(1) have "(genesis_raw_top (forkedSpec s) ++ map_of (rev (moved pfxs (storage s))))
      LastRuntimeUpgrade_key = None"
    by (simp add: map_add_def)
  then show ?thesis
    by (simp add: transplant_def fold_set_top delete_top_def rename_def fun_upd_idem)
qed

text \<open>
  Claim C9. The splice changes nothing but the name, the id, the protocol id and
  \<^verbatim>\<open>genesis.raw.top\<close> of the forked spec: the other fields of the template, the original
  spec and the snapshot are as before, and an entry of \<^verbatim>\<open>genesis.raw.top\<close> keeps its
  template value unless its key is the key of a transplanted pair, the deleted key, the
  code key or one of the five keys set to fixed values.
\<close>
theorem splice_frame:
  "other (forkedSpec (splice_spec pfxs hex s)) = other (forkedSpec s) \<and>
   originalSpec (splice_spec pfxs hex s) = originalSpec s \<and>
   storage (splice_spec pfxs hex s) = storage s \<and>
   (\<forall>k. k \<notin> fst ` set (moved pfxs (storage s)) \<and>
        k \<notin> {LastRuntimeUpgrade_key, code_key, ForceEra_key, HostConfiguration_key,
          council_key, technical_committee_key, eligibility_key} \<longrightarrow>
        genesis_raw_top (forkedSpec (splice_spec pfxs hex s)) k =
          genesis_raw_top (forkedSpec s) k)"
proof -
  have "map_of (rev (moved pfxs (storage s))) k = None"
    if "k \<notin> fst ` set (moved pfxs (storage s))" for k
    using that by (simp add: map_of_eq_None_iff)
  then show ?thesis
    by (simp add: top_splice_at map_add_def) (simp add: splice_closed)
qed

theorem splice_frame_witness:
  "let s = \<lparr>storage = [(''0xaa11'', ''0x01''), (''0xbb22'', ''0x02'')],
        originalSpec = \<lparr>spec_name = ''kusama'', spec_id = ''ks'', protocolId = Some ''ksmcc3'',
          genesis_raw_top = Map.empty, other = ''orig''\<rparr>,
        forkedSpec = \<lparr>spec_name = ''Development'', spec_id = ''dev'', protocolId = None,
          genesis_raw_top = [''0xbb22'' \<mapsto> ''0x07''], other = ''tmpl''\<rparr>\<rparr>
   in other (forkedSpec (splice_spec [''0xaa''] ''00'' s)) = ''tmpl'' \<and>
      originalSpec (splice_spec [''0xaa''] ''00'' s) = originalSpec s \<and>
      storage (splice_spec [''0xaa''] ''00'' s) = storage s \<and>
      genesis_raw_top (forkedSpec (splice_spec [''0xaa''] ''00'' s)) ''0xbb22'' = Some ''0x07''"
proof -
  let ?s = "\<lparr>storage = [(''0xaa11'', ''0x01''), (''0xbb22'', ''0x02'')],
        originalSpec = \<lparr>spec_name = ''kusama'', spec_id = ''ks'', protocolId = Some ''ksmcc3'',
          genesis_raw_top = Map.empty, other = ''orig''\<rparr>,
        forkedSpec = \<lparr>spec_name = ''Development'', spec_id = ''dev'', protocolId = None,
          genesis_raw_top = [''0xbb22'' \<mapsto> ''0x07''], other = ''tmpl''\<rparr>\<rparr>"
  have "''0xbb22'' \<notin> fst ` set (moved [''0xaa''] (storage ?s)) \<and>
        ''0xbb22'' \<notin> {LastRuntimeUpgrade_key, code_key, ForceEra_key, HostConfiguration_key,
          council_key, technical_committee_key, eligibility_key}"
    by (simp add: moved_def startsWith_def key_defs)
  with splice_frame [of "[''0xaa'']" "''00''" ?s] show ?thesis
    unfolding Let_def by simp
qed

lemma populate_prefixes_eq:
  "populate_prefixes H modules pfxs =
     pfxs @ map (\<lambda>p. H p 128)
       (filter (\<lambda>p. p \<notin> set skippedModulesPrefix)
         (List.map_filter (\<lambda>m. map_option storage_prefix (module_storage m)) modules))"
proof (induction modules arbitrary: pfxs)
  case Nil
  show ?case by (simp add: populate_prefixes_def List.map_filter_simps)
next
  case (Cons m modules)
  have "populate_prefixes H (m # modules) pfxs =
        populate_prefixes H modules (push_module H m pfxs)"
    by (simp add: populate_prefixes_def)
  also have "\<dots> = push_module H m pfxs @ map (\<lambda>p. H p 128)
       (filter (\<lambda>p. p \<notin> set skippedModulesPrefix)
         (List.map_filter (\<lambda>m. map_option storage_prefix (module_storage m)) modules))"
    by (rule Cons.IH)
  finally show ?case
    by (simp add: push_module_def List.map_filter_simps split: option.splits)
qed

text \<open>
  Claim C5 as stated fails: the test against the skip list and the hash are taken on the
  storage prefix of a module, not on its name. The module named Council, whose storage
  prefix is Instance1Collective, has a name outside the skip list, and the hash of that
  name is not pushed; the module of storage prefix Balances is pushed although it is
  named System. The hash function here keeps its argument readable.
\<close>
theorem module_name_counterexample:
  "''Council'' \<notin> set skippedModulesPrefix \<and>
   ''0xCouncil'' \<notin> set (populate_prefixes (\<lambda>p n. ''0x'' @ p)
     [\<lparr>name_of_module = ''Council'',
       module_storage = Some \<lparr>storage_prefix = ''Instance1Collective''\<rparr>\<rparr>] prefixes0) \<and>
   populate_prefixes (\<lambda>p n. ''0x'' @ p)
     [\<lparr>name_of_module = ''Council'',
       module_storage = Some \<lparr>storage_prefix = ''Instance1Collective''\<rparr>\<rparr>] prefixes0 =
     [System_Account, ''0xInstance1Collective''] \<and>
   ''System'' \<in> set skippedModulesPrefix \<and>
   populate_prefixes (\<lambda>p n. ''0x'' @ p)
     [\<lparr>name_of_module = ''System'',
       module_storage = Some \<lparr>storage_prefix = ''Balances''\<rparr>\<rparr>] prefixes0 =
     [System_Account, ''0xBalances'']"
  by (simp add: populate_prefixes_eq List.map_filter_simps skippedModulesPrefix_def
      prefixes0_def System_Account_def)

text \<open>
  Claim C5, as amended. The prefixes after the metadata loop are the prefixes before it, unchanged
  and in place (the pinned ones among them), followed by the 128-bit hashes of the
  storage prefixes of the modules that declare storage and whose storage prefix is not
  in the skip list, in the order of the metadata; nothing is pushed for a module whose
  storage prefix is in the skip list, and the name of a module plays no role. For
  modules of storage prefixes System, Balances and Staking, whatever their names, the
  hashes of Balances and of Staking are pushed and none for System.
\<close>
theorem prefix_registry:
  "populate_prefixes H modules pfxs =
     pfxs @ map (\<lambda>p. H p 128)
       (filter (\<lambda>p. p \<notin> set skippedModulesPrefix)
         (List.map_filter (\<lambda>m. map_option storage_prefix (module_storage m)) modules)) \<and>
   populate_prefixes H
     [\<lparr>name_of_module = n1, module_storage = Some \<lparr>storage_prefix = ''System''\<rparr>\<rparr>,
      \<lparr>name_of_module = n2, module_storage = Some \<lparr>storage_prefix = ''Balances''\<rparr>\<rparr>,
      \<lparr>name_of_module = n3, module_storage = Some \<lparr>storage_prefix = ''Staking''\<rparr>\<rparr>] pfxs =
     pfxs @ [H ''Balances'' 128, H ''Staking'' 128]"
  by (simp add: populate_prefixes_eq List.map_filter_simps skippedModulesPrefix_def)

theorem prefix_registry_witness:
  "populate_prefixes (\<lambda>p n. ''0x'' @ p)
     [\<lparr>name_of_module = ''System'', module_storage = Some \<lparr>storage_prefix = ''System''\<rparr>\<rparr>,
      \<lparr>name_of_module = ''Balances'', module_storage = Some \<lparr>storage_prefix = ''Balances''\<rparr>\<rparr>,
      \<lparr>name_of_module = ''Staking'', module_storage = Some \<lparr>storage_prefix = ''Staking''\<rparr>\<rparr>,
      \<lparr>name_of_module = ''Utility'', module_storage = None\<rparr>] prefixes0 =
   [System_Account, ''0xBalances'', ''0xStaking'']"
  using prefix_registry [of "\<lambda>p n. ''0x'' @ p"
    "[\<lparr>name_of_module = ''System'', module_storage = Some \<lparr>storage_prefix = ''System''\<rparr>\<rparr>,
      \<lparr>name_of_module = ''Balances'', module_storage = Some \<lparr>storage_prefix = ''Balances''\<rparr>\<rparr>,
      \<lparr>name_of_module = ''Staking'', module_storage = Some \<lparr>storage_prefix = ''Staking''\<rparr>\<rparr>,
      \<lparr>name_of_module = ''Utility'', module_storage = None\<rparr>]" prefixes0]
  by (simp add: prefixes0_def List.map_filter_simps skippedModulesPrefix_def)

lemma System_Account_not_fixed:
  "startsWith k System_Account \<Longrightarrow>
   k \<notin> {LastRuntimeUpgrade_key, code_key, ForceEra_key, HostConfiguration_key,
     council_key, technical_committee_key, eligibility_key}"
  by (auto simp: startsWith_def System_Account_def key_defs)

text \<open>
  Claim C10. System is in the skip list, yet the pinned prefix System.Account is in the
  prefix set whatever the metadata says, and a snapshot key that starts with it ends up
  in the forked spec with the value of its pair in the snapshot (of the last such pair,
  should the snapshot repeat a key).
\<close>
theorem System_Account_transplanted:
  "''System'' \<in> set skippedModulesPrefix \<and>
   System_Account \<in> set (populate_prefixes H modules prefixes0) \<and>
   (startsWith k System_Account \<and> map_of (rev (storage s)) k = Some v \<longrightarrow>
      genesis_raw_top (forkedSpec (main_splice H modules hex s)) k = Some v)"
proof -
  let ?pfxs = "populate_prefixes H modules prefixes0"
  have mem: "System_Account \<in> set ?pfxs"
    by (simp add: populate_prefixes_eq prefixes0_def)
  have "genesis_raw_top (forkedSpec (main_splice H modules hex s)) k = Some v"
    if k: "startsWith k System_Account" and v: "map_of (rev (storage s)) k = Some v"
  proof -
    have "list_ex (startsWith k) ?pfxs"
      using mem k by (auto simp: list_ex_iff)
    then have "map_of (rev (moved ?pfxs (storage s))) k = Some v"
      using v by (simp add: map_of_moved_Some)
    then show ?thesis
      using System_Account_not_fixed [OF k]
      by (simp add: main_splice_def top_splice_at map_add_def)
  qed
  moreover have "''System'' \<in> set skippedModulesPrefix"
    by (simp add: skippedModulesPrefix_def)
  ultimately show ?thesis
    using mem by blast
qed

theorem System_Account_transplanted_witness:
  "let s = \<lparr>storage = [(System_Account @ ''00'', ''0x01''), (''0xbb22'', ''0x05''), (System_Account @ ''00'', ''0x02'')],
        originalSpec = \<lparr>spec_name = ''kusama'', spec_id = ''ks'', protocolId = Some ''ksmcc3'',
          genesis_raw_top = Map.empty, other = ''orig''\<rparr>,
        forkedSpec = \<lparr>spec_name = ''Development'', spec_id = ''dev'', protocolId = None,
          genesis_raw_top = Map.empty, other = ''tmpl''\<rparr>\<rparr>
   in startsWith (System_Account @ ''00'') System_Account \<and>
      map_of (rev (storage s)) (System_Account @ ''00'') = Some ''0x02'' \<and>
      genesis_raw_top (forkedSpec (main_splice (\<lambda>p n. ''0x'' @ p)
        [\<lparr>name_of_module = ''System'', module_storage = Some \<lparr>storage_prefix = ''System''\<rparr>\<rparr>] ''00'' s))
        (System_Account @ ''00'') = Some ''0x02''"
proof -
  let ?s = "\<lparr>storage = [(System_Account @ ''00'', ''0x01''), (''0xbb22'', ''0x05''), (System_Account @ ''00'', ''0x02'')],
        originalSpec = \<lparr>spec_name = ''kusama'', spec_id = ''ks'', protocolId = Some ''ksmcc3'',
          genesis_raw_top = Map.empty, other = ''orig''\<rparr>,
        forkedSpec = \<lparr>spec_name = ''Development'', spec_id = ''dev'', protocolId = None,
          genesis_raw_top = Map.empty, other = ''tmpl''\<rparr>\<rparr>"
  have a: "startsWith (System_Account @ ''00'') System_Account"
    by (simp add: startsWith_def)
  have b: "map_of (rev (storage ?s)) (System_Account @ ''00'') = Some ''0x02''"
    by simp
  from System_Account_transplanted [of "\<lambda>p n. ''0x'' @ p"
      "[\<lparr>name_of_module = ''System'', module_storage = Some \<lparr>storage_prefix = ''System''\<rparr>\<rparr>]" "System_Account @ ''00''" ?s "''0x02''" "''00''"]
    a b show ?thesis
    unfolding Let_def by blast
qed

section \<open>Properties of the chunk addresses\<close>

lemma hexdigit_inj:
  "a < 16 \<Longrightarrow> b < 16 \<Longrightarrow> hexdigit a = hexdigit b \<Longrightarrow> a = b"
proof -
  assume a: "a < 16" and b: "b < 16" and e: "hexdigit a = hexdigit b"
  have d: "distinct ''0123456789abcdef''" by simp
  have l: "length ''0123456789abcdef'' = 16" by simp
  from e show "a = b"
    unfolding hexdigit_def using nth_eq_iff_index_eq [OF d, of a b] a b l by metis
qed

lemma hex2_eq:
  assumes "i < 256"
  shows "hex2 i = [hexdigit (i div 16), hexdigit (i mod 16)]"
proof (cases "i < 16")
  case True
  then have "toString16 i = [hexdigit i]"
    by (simp add: toString16.simps)
  with True show ?thesis
    by (simp add: hex2_def padStart_def hexdigit_def)
next
  case False
  with assms have "i div 16 < 16" by simp
  then have "toString16 (i div 16) = [hexdigit (i div 16)]"
    by (simp add: toString16.simps)
  with False have "toString16 i = [hexdigit (i div 16), hexdigit (i mod 16)]"
    by (subst toString16.simps) simp
  then show ?thesis
    by (simp add: hex2_def padStart_def)
qed

lemma length_hex2: "i < 256 \<Longrightarrow> length (hex2 i) = 2"
  by (simp add: hex2_eq)

lemma hex2_inj:
  assumes "i < 256" "j < 256" "hex2 i = hex2 j"
  shows "i = j"
proof -
  from assms have "hexdigit (i div 16) = hexdigit (j div 16)"
    and "hexdigit (i mod 16) = hexdigit (j mod 16)"
    by (simp_all add: hex2_eq)
  moreover from assms have "i div 16 < 16" "j div 16 < 16" by simp_all
  ultimately have "i div 16 = j div 16" "i mod 16 = j mod 16"
    by (auto intro: hexdigit_inj)
  then show ?thesis
    by (metis div_mult_mod_eq)
qed


lemma length_chunk_addresses: "length (chunk_addresses pfx n) = 256 ^ n"
proof (induction n arbitrary: pfx)
  case 0
  show ?case by simp
next
  case (Suc n)
  have "length (concat (map (\<lambda>i. chunk_addresses (pfx @ hex2 i) n) is)) = length is * 256 ^ n"
    for "is" :: "nat list"
    by (induction "is") (simp_all add: Suc.IH)
  from this [of "[0..<256]"] show ?case by simp
qed

lemma chunk_address_shape:
  "x \<in> set (chunk_addresses pfx n) \<Longrightarrow> prefix pfx x \<and> length x = length pfx + 2 * n"
proof (induction n arbitrary: pfx)
  case 0
  then show ?case by simp
next
  case (Suc n)
  then obtain i where i: "i < 256" and x: "x \<in> set (chunk_addresses (pfx @ hex2 i) n)"
    by auto
  from Suc.IH [OF x] have "prefix (pfx @ hex2 i) x"
    and "length x = length (pfx @ hex2 i) + 2 * n" by simp_all
  with i show ?case
    by (simp add: length_hex2) (meson append_prefixD)
qed

lemma distinct_concat_map:
  assumes "distinct xs"
    and "\<And>x. x \<in> set xs \<Longrightarrow> distinct (f x)"
    and "\<And>x y. x \<in> set xs \<Longrightarrow> y \<in> set xs \<Longrightarrow> x \<noteq> y \<Longrightarrow> set (f x) \<inter> set (f y) = {}"
  shows "distinct (concat (map f xs))"
  using assms
proof (induction xs)
  case Nil
  show ?case by simp
next
  case (Cons x xs)
  have "distinct (concat (map f xs))"
    using Cons.prems by (intro Cons.IH) auto
  moreover have "distinct (f x)"
    using Cons.prems(2) by simp
  moreover have "set (f x) \<inter> set (f y) = {}" if "y \<in> set xs" for y
    using Cons.prems(1) Cons.prems(3) [of x y] that by auto
  ultimately show ?case
    by auto
qed

lemma same_length_prefixes:
  "prefix p k \<Longrightarrow> prefix q k \<Longrightarrow> length p = length q \<Longrightarrow> p = q"
  by (metis prefix_length_prefix prefix_order.antisym order_refl)

lemma distinct_chunk_addresses: "distinct (chunk_addresses pfx n)"
proof (induction n arbitrary: pfx)
  case 0
  show ?case by simp
next
  case (Suc n)
  have "set (chunk_addresses (pfx @ hex2 i) n) \<inter> set (chunk_addresses (pfx @ hex2 j) n) = {}"
    if "i \<in> set [0..<256]" "j \<in> set [0..<256]" "i \<noteq> j" for i j
  proof (rule ccontr)
    assume "\<not> ?thesis"
    then obtain x where xi: "x \<in> set (chunk_addresses (pfx @ hex2 i) n)"
      and xj: "x \<in> set (chunk_addresses (pfx @ hex2 j) n)" by auto
    from that have ij: "i < 256" "j < 256" by simp_all
    from chunk_address_shape [OF xi] chunk_address_shape [OF xj] ij
    have "pfx @ hex2 i = pfx @ hex2 j"
      by (intro same_length_prefixes [of _ x]) (simp_all add: length_hex2)
    with ij have "i = j" by (simp add: hex2_inj)
    with that show False by simp
  qed
  then show ?case
    unfolding chunk_addresses.simps
    by (intro distinct_concat_map) (simp_all add: Suc.IH)
qed

lemma storage_key_take:
  "storage_key bs = storage_key (take n bs) @ concat (map (\<lambda>b. hex2 (unat b)) (drop n bs))"
proof -
  have "bs = take n bs @ drop n bs" by simp
  then have "storage_key bs = storage_key (take n bs @ drop n bs)" by simp
  then show ?thesis
    unfolding storage_key_def by (simp del: append_take_drop_id)
qed

lemma unat_byte_less: "unat (b :: 8 word) < 256"
  using unsigned_less [of b] by simp

lemma length_storage_key: "length (storage_key bs) = 2 + 2 * length bs"
  by (induction bs) (simp_all add: storage_key_def length_hex2 unat_byte_less)

lemma storage_key_chunk:
  "pfx @ concat (map (\<lambda>b. hex2 (unat b)) (bs :: 8 word list))
     \<in> set (chunk_addresses pfx (length bs))"
proof (induction bs arbitrary: pfx)
  case Nil
  show ?case by simp
next
  case (Cons b bs)
  have "(pfx @ hex2 (unat b)) @ concat (map (\<lambda>b. hex2 (unat b)) bs)
      \<in> set (chunk_addresses (pfx @ hex2 (unat b)) (length bs))"
    by (rule Cons.IH)
  moreover have "unat b \<in> set [0..<256]"
    using unat_byte_less [of b] by simp
  ultimately show ?case
    by (simp del: set_upt) blast
qed

lemma requests_stream_write [simp]: "requests (stream_write t st) = requests st"
  by (simp add: stream_write_def)

lemma requests_receive [simp]: "requests (receive pairs st) = requests st"
  by (simp add: receive_def Let_def)

lemma requests_send [simp]: "requests (send pfx st) = requests st @ [pfx]"
  by (simp add: send_def)

lemma fold_requests:
  assumes "\<And>i st. i \<in> set is \<Longrightarrow> requests (f i st) = requests st @ g i"
  shows "requests (fold f is st) = requests st @ concat (map g is)"
  using assms by (induction "is" arbitrary: st) simp_all

lemma requests_fetchChunks:
  "requests (fetchChunks q a rpc pfx n st) = requests st @ chunk_addresses pfx (nat n)"
proof (induction q a rpc pfx n st rule: fetchChunks.induct)
  case (1 q a rpc pfx n st)
  show ?case
  proof (cases "n \<le> 0")
    case True
    then show ?thesis
      by (subst fetchChunks.simps) simp
  next
    case pos: False
    then have n: "nat n = Suc (nat (n - 1))" by simp
    show ?thesis
    proof (cases "q \<and> n = 1")
      case True
      have "requests (fold (\<lambda>i. receive (rpc (pfx @ hex2 i))) js st') = requests st'"
        for js st'
        using fold_requests [of js "\<lambda>i. receive (rpc (pfx @ hex2 i))" "\<lambda>i. []" st']
        by simp
      moreover have "requests (fold (\<lambda>i. send (pfx @ hex2 i)) [0..<256] st) =
          requests st @ concat (map (\<lambda>i. [pfx @ hex2 i]) [0..<256])"
        by (rule fold_requests) simp
      ultimately show ?thesis
        using True by (subst fetchChunks.simps) (simp del: upt_Suc)
    next
      case False
      have "requests (fold (\<lambda>i. fetchChunks q a rpc (pfx @ hex2 i) (n - 1)) [0..<256] st) =
          requests st @ concat (map (\<lambda>i. chunk_addresses (pfx @ hex2 i) (nat (n - 1))) [0..<256])"
        using pos False by (intro fold_requests "1.IH") auto
      then show ?thesis
        using pos False n by (subst fetchChunks.simps) (auto simp del: upt_Suc)
    qed
  qed
qed


lemma requests_main_fetch:
  "requests (main_fetch q a rpc levels) = chunk_addresses ''0x'' (nat levels)"
  by (simp add: main_fetch_def Let_def requests_fetchChunks fetch_state0_def)

lemma code_key_bytes: "storage_key [0x3a, 0x63, 0x6f, 0x64, 0x65] = code_key"
  by (simp add: storage_key_def hex2_eq hexdigit_def code_key_def)

text \<open>
  Claim C4, as amended. For a depth \<open>levels\<close> of at least 0, with or without quick mode,
  the walk sends exactly \<open>256 ^ levels\<close> requests, for pairwise distinct prefixes; a
  storage key of at least \<open>levels\<close> bytes extends exactly one of these prefixes, and a
  storage key of fewer bytes extends none of them.
\<close>
theorem chunk_partition:
  assumes "0 \<le> levels"
  shows "length (requests (main_fetch q a rpc levels)) = totalChunks (nat levels) \<and>
    distinct (requests (main_fetch q a rpc levels)) \<and>
    (\<forall>bs. nat levels \<le> length bs \<longrightarrow>
       (\<exists>!p. p \<in> set (requests (main_fetch q a rpc levels)) \<and> startsWith (storage_key bs) p)) \<and>
    (\<forall>bs. length bs < nat levels \<longrightarrow>
       \<not> list_ex (startsWith (storage_key bs)) (requests (main_fetch q a rpc levels)))"
proof -
  let ?L = "chunk_addresses ''0x'' (nat levels)"
  have one: "\<exists>!p. p \<in> set ?L \<and> startsWith (storage_key bs) p"
    if "nat levels \<le> length bs" for bs
  proof
    let ?p = "storage_key (take (nat levels) bs)"
    have "?p \<in> set (chunk_addresses ''0x'' (length (take (nat levels) bs)))"
      unfolding storage_key_def by (rule storage_key_chunk)
    moreover have "prefix ?p (storage_key bs)"
      using storage_key_take [of bs "nat levels"] by (metis prefixI)
    ultimately show "?p \<in> set ?L \<and> startsWith (storage_key bs) ?p"
      using that by (simp add: startsWith_def min_absorb2)
  next
    fix p
    let ?p = "storage_key (take (nat levels) bs)"
    assume p: "p \<in> set ?L \<and> startsWith (storage_key bs) p"
    then have "length p = 2 + 2 * nat levels"
      using chunk_address_shape [of p "''0x''" "nat levels"] by simp
    moreover have "length ?p = 2 + 2 * nat levels"
      using that by (simp add: length_storage_key min_absorb2)
    moreover have "prefix ?p (storage_key bs)"
      using storage_key_take [of bs "nat levels"] by (metis prefixI)
    ultimately show "p = ?p"
      using p by (intro same_length_prefixes [of p "storage_key bs"]) (simp_all add: startsWith_def)
  qed
  have none: "\<not> list_ex (startsWith (storage_key bs)) ?L" if "length bs < nat levels" for bs
  proof
    assume "list_ex (startsWith (storage_key bs)) ?L"
    then obtain p where p: "p \<in> set ?L" and pre: "prefix p (storage_key bs)"
      by (auto simp: list_ex_iff startsWith_def)
    from p have "length p = 2 + 2 * nat levels"
      using chunk_address_shape [of p "''0x''" "nat levels"] by simp
    moreover from pre have "length p \<le> length (storage_key bs)"
      by (rule prefix_length_le)
    ultimately show False
      using that by (simp add: length_storage_key)
  qed
  show ?thesis
    unfolding requests_main_fetch
    using one none
    by (simp add: length_chunk_addresses totalChunks_def distinct_chunk_addresses)
qed

theorem chunk_partition_witness:
  "(0::int) \<le> 1 \<and>
   length (requests (main_fetch True (\<lambda>p. rev [0..<256]) (\<lambda>p. []) 1)) = 256 \<and>
   distinct (requests (main_fetch True (\<lambda>p. rev [0..<256]) (\<lambda>p. []) 1)) \<and>
   (\<exists>!p. p \<in> set (requests (main_fetch True (\<lambda>p. rev [0..<256]) (\<lambda>p. []) 1)) \<and>
      startsWith code_key p)"
proof -
  have h: "(0::int) \<le> 1" by simp
  have b: "nat 1 \<le> length [0x3a, 0x63, 0x6f, 0x64, 0x65 :: 8 word]" by simp
  from chunk_partition [OF h, of True "\<lambda>p. rev [0..<256]" "\<lambda>p. []"] b
  have "\<exists>!p. p \<in> set (requests (main_fetch True (\<lambda>p. rev [0..<256]) (\<lambda>p. []) 1)) \<and>
      startsWith (storage_key [0x3a, 0x63, 0x6f, 0x64, 0x65]) p"
    by blast
  with chunk_partition [OF h, of True "\<lambda>p. rev [0..<256]" "\<lambda>p. []"] show ?thesis
    by (simp add: code_key_bytes totalChunks_def)
qed

text \<open>
  Claim C4 as stated fails: at depth 6 no prefix of the walk is a prefix of the key
  \<^verbatim>\<open>0x3a636f6465\<close> of five bytes.
\<close>
theorem short_key_counterexample:
  "storage_key [0x3a, 0x63, 0x6f, 0x64, 0x65] = code_key \<and>
   \<not> list_ex (startsWith code_key) (requests (main_fetch False (\<lambda>p. []) (\<lambda>p. []) 6))"
proof -
  have "\<not> list_ex (startsWith code_key) (chunk_addresses ''0x'' 6)"
  proof
    assume "list_ex (startsWith code_key) (chunk_addresses ''0x'' 6)"
    then obtain p where p: "p \<in> set (chunk_addresses ''0x'' 6)" and pre: "prefix p code_key"
      by (auto simp: list_ex_iff startsWith_def)
    from p have "length p = 14"
      using chunk_address_shape [of p "''0x''" 6] by simp
    moreover from pre have "length p \<le> length code_key"
      by (rule prefix_length_le)
    ultimately show False
      by (simp add: code_key_def)
  qed
  then show ?thesis
    by (simp add: requests_main_fetch code_key_bytes)
qed

section \<open>Properties of the fetch\<close>

lemma hexval_hexdigit: "d < 16 \<Longrightarrow> hexval (hexdigit d) = Some d"
proof -
  have "list_all (\<lambda>d. hexval (hexdigit d) = Some d) [0..<16]"
    by code_simp
  then show "d < 16 \<Longrightarrow> hexval (hexdigit d) = Some d"
    unfolding list_all_iff by simp
qed

lemma hexval_zero: "hexval CHR ''0'' = Some 0"
  by (simp add: hexval_def)

lemma unicode_escape_hex2:
  assumes "n < 256"
  shows "unicode_escape (CHR ''0'' # CHR ''0'' # hex2 n) = Some (char_of n)"
proof -
  from assms have "n div 16 < 16" "n mod 16 < 16" by simp_all
  then show ?thesis
    by (simp add: unicode_escape_def hex2_eq assms hexval_hexdigit hexval_zero)
qed

lemma of_char_less_256: "(of_char c :: nat) < 256"
  by simp

lemma parse_chars_quoteJSONChar:
  "parse_chars (quoteJSONChar c @ rest) = cons_result c (parse_chars rest)"
proof -
  have ctl: "parse_chars ([backslash, CHR ''u'', CHR ''0'', CHR ''0''] @ hex2 (of_char c) @ rest) =
      cons_result c (parse_chars rest)"
  proof -
    have l: "length (hex2 (of_char c)) = 2"
      by (simp add: length_hex2 of_char_less_256)
    have "take 4 (CHR ''0'' # CHR ''0'' # hex2 (of_char c) @ rest) =
        CHR ''0'' # CHR ''0'' # hex2 (of_char c)"
      and "drop 4 (CHR ''0'' # CHR ''0'' # hex2 (of_char c) @ rest) = rest"
      using l by simp_all
    then show ?thesis
      using unicode_escape_hex2 [OF of_char_less_256, of c]
      by (simp add: backslash_def dquote_def)
  qed
  show ?thesis
    unfolding quoteJSONChar_def
    using ctl
    by (simp add: backslash_def dquote_def unescape_def)
qed


lemma parse_chars_quoted:
  "parse_chars (concat (map quoteJSONChar s) @ dquote # rest) = Some (s, rest)"
proof (induction s)
  case Nil
  show ?case by simp
next
  case (Cons c s)
  have "parse_chars (concat (map quoteJSONChar (c # s)) @ dquote # rest) =
      parse_chars (quoteJSONChar c @ (concat (map quoteJSONChar s) @ dquote # rest))"
    by simp
  also have "\<dots> = cons_result c (parse_chars (concat (map quoteJSONChar s) @ dquote # rest))"
    by (rule parse_chars_quoteJSONChar)
  finally show ?case
    by (simp add: Cons.IH cons_result_def)
qed

lemma parse_string_quoted:
  "parse_string (QuoteJSONString s @ rest) = Some (s, rest)"
  by (simp add: parse_string_def QuoteJSONString_def expect_def parse_chars_quoted)

lemma parse_pair_stringified:
  "parse_pair (JSON_stringify_pair kv @ rest) = Some (kv, rest)"
proof -
  have "JSON_stringify_pair kv @ rest =
      CHR ''['' # QuoteJSONString (fst kv) @ (CHR '','' # QuoteJSONString (snd kv) @ (CHR '']'' # rest))"
    by (simp add: JSON_stringify_pair_def)
  then show ?thesis
    by (simp add: parse_pair_def expect_def parse_string_quoted)
qed

lemma join_Cons:
  "join sep (x # xs) = x @ concat (map (\<lambda>y. sep @ y) xs)"
  by (induction xs arbitrary: x) simp_all

lemma join_append:
  "xs \<noteq> [] \<Longrightarrow> ys \<noteq> [] \<Longrightarrow> join sep (xs @ ys) = join sep xs @ sep @ join sep ys"
proof (induction xs)
  case Nil
  then show ?case by simp
next
  case (Cons x xs)
  then obtain y ys' where ys: "ys = y # ys'" by (cases ys) auto
  show ?case
    by (simp add: join_Cons ys)
qed

lemma JSON_stringify_pair_nonempty: "JSON_stringify_pair kv \<noteq> []"
  by (simp add: JSON_stringify_pair_def)

lemma parse_elements_stringified:
  "length ps < n \<Longrightarrow>
   parse_elements n (concat (map (\<lambda>kv. '','' @ JSON_stringify_pair kv) ps) @ '']'') = Some ps"
proof (induction ps arbitrary: n)
  case Nil
  then obtain m where "n = Suc m" by (cases n) auto
  then show ?case by simp
next
  case (Cons kv ps)
  then obtain m where n: "n = Suc m" and m: "length ps < m" by (cases n) auto
  let ?rest = "concat (map (\<lambda>kv. '','' @ JSON_stringify_pair kv) ps) @ '']''"
  have "parse_pair (JSON_stringify_pair kv @ ?rest) = Some (kv, ?rest)"
    by (rule parse_pair_stringified)
  then show ?case
    using Cons.IH [OF m] by (simp add: n expect_def)
qed

lemma length_concat_ge:
  "(\<And>x. x \<in> set xs \<Longrightarrow> f x \<noteq> []) \<Longrightarrow> length xs \<le> length (concat (map f xs))"
proof (induction xs)
  case Nil
  show ?case by simp
next
  case (Cons x xs)
  then have "f x \<noteq> []" and "length xs \<le> length (concat (map f xs))" by simp_all
  then show ?case
    by (cases "f x") simp_all
qed

lemma JSON_parse_stringify: "JSON_parse (JSON_stringify ps) = Some ps"
proof (cases ps)
  case Nil
  then show ?thesis
    by (simp add: JSON_parse_def JSON_stringify_def)
next
  case (Cons kv ps')
  let ?tail = "concat (map (\<lambda>kv. '','' @ JSON_stringify_pair kv) ps') @ '']''"
  have s: "JSON_stringify ps = CHR ''['' # JSON_stringify_pair kv @ ?tail"
    by (simp add: JSON_stringify_def Cons join_Cons) (simp add: comp_def)
  have "length ps' \<le> length (concat (map (\<lambda>kv. '','' @ JSON_stringify_pair kv) ps'))"
    by (rule length_concat_ge) simp
  then have "length ps' < length (JSON_stringify ps)"
    unfolding s by simp
  then have "parse_elements (length (JSON_stringify ps)) ?tail = Some ps'"
    by (rule parse_elements_stringified)
  moreover have "JSON_stringify ps \<noteq> ''[]''"
    unfolding s using JSON_stringify_pair_nonempty [of kv]
    by (cases "JSON_stringify_pair kv") (simp_all add: JSON_stringify_pair_def)
  moreover have "parse_pair (JSON_stringify_pair kv @ ?tail) = Some (kv, ?tail)"
    by (rule parse_pair_stringified)
  ultimately have "JSON_parse (JSON_stringify ps) = Some (kv # ps')"
    unfolding JSON_parse_def
    by (simp add: expect_def s)
  then show ?thesis
    by (simp add: Cons)
qed


lemma slice_brackets: "slice_string (CHR ''['' # x @ '']'') 1 (- 1) = x"
  by (simp add: slice_string_def Let_def)

lemma written_receive:
  assumes "written acc st"
  shows "written (acc @ pairs) (receive pairs st)"
proof (cases "pairs = []")
  case True
  with assms show ?thesis
    by (simp add: receive_def written_def)
next
  case False
  have sl: "slice_string (JSON_stringify pairs) 1 (- 1) = join '','' (map JSON_stringify_pair pairs)"
    using slice_brackets [of "join '','' (map JSON_stringify_pair pairs)"]
    by (simp add: JSON_stringify_def)
  show ?thesis
  proof (cases "acc = []")
    case True
    with assms False sl show ?thesis
      by (simp add: receive_def written_def stream_write_def)
  next
    case nonempty: False
    have "join '','' (map JSON_stringify_pair (acc @ pairs)) =
        join '','' (map JSON_stringify_pair acc) @ '','' @ join '','' (map JSON_stringify_pair pairs)"
      using nonempty False by (simp add: join_append)
    with assms False nonempty sl show ?thesis
      by (simp add: receive_def written_def stream_write_def)
  qed
qed

lemma written_send: "written acc (send pfx st) = written acc st"
  by (simp add: written_def send_def)

lemma fold_written:
  assumes "\<And>i acc st. i \<in> set is \<Longrightarrow> written acc st \<Longrightarrow> written (acc @ g i) (f i st)"
    and "written acc st"
  shows "written (acc @ concat (map g is)) (fold f is st)"
  using assms
proof (induction "is" arbitrary: acc st)
  case Nil
  then show ?case by simp
next
  case (Cons i "is")
  have "written (acc @ g i) (f i st)"
    using Cons.prems by simp
  then have "written ((acc @ g i) @ concat (map g is)) (fold f is (f i st))"
    using Cons.prems(1) by (intro Cons.IH) simp_all
  then show ?case by simp
qed

lemma concat_map_concat:
  "concat (map f (concat (map g xs))) = concat (map (\<lambda>x. concat (map f (g x))) xs)"
  by (induction xs) simp_all

lemma written_fetchChunks:
  "written acc st \<Longrightarrow>
   written (acc @ concat (map rpc (answered q a pfx (nat n)))) (fetchChunks q a rpc pfx n st)"
proof (induction q a rpc pfx n st arbitrary: acc rule: fetchChunks.induct)
  case (1 q a rpc pfx n st)
  show ?case
  proof (cases "n \<le> 0")
    case True
    then show ?thesis
      using written_receive [of acc "send pfx st" "rpc pfx"] "1.prems"
      by (subst fetchChunks.simps) (simp add: written_send)
  next
    case pos: False
    then have n: "nat n = Suc (nat (n - 1))" by simp
    show ?thesis
    proof (cases "q \<and> n = 1")
      case True
      have "written acc (fold (\<lambda>i. send (pfx @ hex2 i)) js st)" for js
        using "1.prems" by (induction js arbitrary: st) (simp_all add: written_send)
      then have "written (acc @ concat (map (\<lambda>i. rpc (pfx @ hex2 i)) (a pfx)))
          (fold (\<lambda>i. receive (rpc (pfx @ hex2 i))) (a pfx)
            (fold (\<lambda>i. send (pfx @ hex2 i)) [0..<256] st))"
        by (intro fold_written written_receive)
      then show ?thesis
        using True by (subst fetchChunks.simps) (simp add: comp_def del: upt_Suc)
    next
      case False
      have "written (acc @ concat (map (\<lambda>i. concat (map rpc (answered q a (pfx @ hex2 i) (nat (n - 1))))) [0..<256]))
          (fold (\<lambda>i. fetchChunks q a rpc (pfx @ hex2 i) (n - 1)) [0..<256] st)"
        using pos False "1.prems" by (intro fold_written "1.IH") auto
      moreover have "concat (map rpc (answered q a pfx (nat n))) =
          concat (map (\<lambda>i. concat (map rpc (answered q a (pfx @ hex2 i) (nat (n - 1))))) [0..<256])"
        using pos False unfolding n answered.simps
        by (auto simp add: concat_map_concat simp del: upt_Suc)
      ultimately show ?thesis
        using pos False by (subst fetchChunks.simps) (auto simp del: upt_Suc)
    qed
  qed
qed

lemma mset_answered:
  assumes "\<And>p. mset (a p) = mset [0..<256]"
  shows "mset (answered q a pfx n) = mset (chunk_addresses pfx n)"
proof (induction n arbitrary: pfx)
  case 0
  show ?case by simp
next
  case (Suc n)
  show ?case
  proof (cases "q \<and> n = 0")
    case True
    have "mset (map (\<lambda>i. pfx @ hex2 i) (a pfx)) = mset (map (\<lambda>i. pfx @ hex2 i) [0..<256])"
      using assms [of pfx] by (simp only: mset_map)
    with True show ?thesis
      by (simp del: upt_Suc add: comp_def)
  next
    case False
    have "mset (concat (map (\<lambda>i. answered q a (pfx @ hex2 i) n) is)) =
        mset (concat (map (\<lambda>i. chunk_addresses (pfx @ hex2 i) n) is))" for "is" :: "nat list"
      by (induction "is") (simp_all add: Suc.IH)
    with False show ?thesis
      by (auto simp del: upt_Suc)
  qed
qed

lemma answered_sequential: "answered False a pfx n = chunk_addresses pfx n"
proof (induction n arbitrary: pfx)
  case 0
  show ?case by simp
next
  case (Suc n)
  then show ?case by simp
qed


lemma mset_concat_map:
  "mset (concat (map f xs)) = (\<Sum>x\<in>#mset xs. mset (f x))"
  by (induction xs) simp_all

lemma stream_main_fetch:
  "stream (main_fetch q a rpc levels) =
     JSON_stringify (concat (map rpc (answered q a ''0x'' (nat levels))))"
proof -
  have "written [] (stream_write ''['' fetch_state0)"
    by (simp add: written_def stream_write_def fetch_state0_def)
  from written_fetchChunks [OF this, of rpc q a "''0x''" levels] show ?thesis
    by (simp add: main_fetch_def Let_def written_def stream_write_def JSON_stringify_def)
qed

text \<open>A run at depth 0, where the whole key space is one chunk.\<close>

lemma main_fetch_one_chunk:
  "stream (main_fetch q a (\<lambda>p. [(''0x3a'', ''0x01''), (''0x3b'', ''0x'')]) 0) =
     [CHR ''['', CHR ''['', dquote] @ ''0x3a'' @ [dquote, CHR '','', dquote] @ ''0x01'' @
     [dquote, CHR '']'', CHR '','', CHR ''['', dquote] @ ''0x3b'' @ [dquote, CHR '','', dquote] @
     ''0x'' @ [dquote, CHR '']'', CHR '']'']"
  by (simp add: main_fetch_def fetchChunks.simps receive_def send_def stream_write_def
      fetch_state0_def JSON_stringify_def JSON_stringify_pair_def QuoteJSONString_def
      quoteJSONChar_def slice_string_def dquote_def backslash_def)

text \<open>
  Claim C1. For every depth, every RPC source and both settings of quick mode (in quick
  mode for every order in which the 256 answers of a group arrive), the file that lines
  83 to 87 produce parses as a JSON array of pairs; the number of its pairs is the total
  number of pairs that the source holds under the \<open>256 ^ levels\<close> leaf prefixes of that
  depth, the pairs are those pairs, and without quick mode they stand in the order of
  the leaf prefixes. The requests of the walk are these leaf prefixes, each once.
\<close>
theorem fetch_valid_json:
  assumes "\<And>p. mset (arrival p) = mset [0..<256]"
  shows "\<exists>pairs.
    JSON_parse (stream (main_fetch q arrival rpc levels)) = Some pairs \<and>
    length pairs =
      sum_list (map (\<lambda>p. length (rpc p)) (chunk_addresses ''0x'' (nat levels))) \<and>
    mset pairs = mset (concat (map rpc (chunk_addresses ''0x'' (nat levels)))) \<and>
    (\<not> q \<longrightarrow> pairs = concat (map rpc (chunk_addresses ''0x'' (nat levels)))) \<and>
    requests (main_fetch q arrival rpc levels) = chunk_addresses ''0x'' (nat levels)"
proof -
  let ?asked = "chunk_addresses ''0x'' (nat levels)"
  let ?pairs = "concat (map rpc (answered q arrival ''0x'' (nat levels)))"
  have parse: "JSON_parse (stream (main_fetch q arrival rpc levels)) = Some ?pairs"
    by (simp add: stream_main_fetch JSON_parse_stringify)
  have "mset (answered q arrival ''0x'' (nat levels)) = mset ?asked"
    using assms by (rule mset_answered)
  then have m: "mset ?pairs = mset (concat (map rpc ?asked))"
    by (simp add: mset_concat_map)
  then have "size (mset ?pairs) = size (mset (concat (map rpc ?asked)))"
    by simp
  then have l: "length ?pairs = sum_list (map (\<lambda>p. length (rpc p)) ?asked)"
    by (simp add: length_concat comp_def)
  have "?pairs = concat (map rpc ?asked)" if "\<not> q"
    using that by (simp add: answered_sequential)
  with parse m l show ?thesis
    using requests_main_fetch [of q arrival rpc levels] by blast
qed

theorem fetch_valid_json_witness:
  "(\<forall>p :: string. mset (rev [0..<256]) = mset [0..<256]) \<and>
   JSON_parse (stream (main_fetch True (\<lambda>p. rev [0..<256])
     (\<lambda>p. if p = ''0x00'' then [(''0x00aa'', ''0x01'')]
        else if p = ''0xff'' then [(''0xff01'', ''0x02''), (''0xff02'', ''0x'')] else []) 1)) =
     Some [(''0xff01'', ''0x02''), (''0xff02'', ''0x''), (''0x00aa'', ''0x01'')] \<and>
   sum_list (map (\<lambda>p. length ((\<lambda>p. if p = ''0x00'' then [(''0x00aa'', ''0x01'')]
        else if p = ''0xff'' then [(''0xff01'', ''0x02''), (''0xff02'', ''0x'')] else []) p)) (chunk_addresses ''0x'' 1)) = 3"
proof -
  let ?rpc = "(\<lambda>p. if p = ''0x00'' then [(''0x00aa'', ''0x01'')]
        else if p = ''0xff'' then [(''0xff01'', ''0x02''), (''0xff02'', ''0x'')] else [])"
  have h: "mset (rev [0..<256]) = mset [0..<256]" for p :: string
    by simp
  have "concat (map ?rpc (answered True (\<lambda>p. rev [0..<256]) ''0x'' 1)) =
      [(''0xff01'', ''0x02''), (''0xff02'', ''0x''), (''0x00aa'', ''0x01'')]"
    by code_simp
  then have parse: "JSON_parse (stream (main_fetch True (\<lambda>p. rev [0..<256]) ?rpc 1)) =
      Some [(''0xff01'', ''0x02''), (''0xff02'', ''0x''), (''0x00aa'', ''0x01'')]"
    by (simp add: stream_main_fetch JSON_parse_stringify)
  from fetch_valid_json [of "\<lambda>p. rev [0..<256]" True ?rpc 1, OF h] parse
  have "sum_list (map (\<lambda>p. length (?rpc p)) (chunk_addresses ''0x'' 1)) = 3"
    by auto
  with h parse show ?thesis
    by blast
qed

end
